theory Spec2Isabelle
  imports Main "HOL-Library.Sublist"
begin

section \<open>Python string operations used by the decoder\<close>

text \<open>
  Strings are modelled as lists of 8-bit characters, so the model covers ASCII text.
  The whitespace class is the ASCII part of what \<^verbatim>\<open>str.split()\<close> and
  \<^verbatim>\<open>str.strip()\<close> treat as whitespace: tab, line feed, vertical tab, form feed,
  carriage return, the four separators 0x1C..0x1F and the space.
\<close>

definition is_space :: "char \<Rightarrow> bool" where
  "is_space c \<longleftrightarrow>
     c \<in> set [CHR 0x09, CHR 0x0A, CHR 0x0B, CHR 0x0C, CHR 0x0D,
               CHR 0x1C, CHR 0x1D, CHR 0x1E, CHR 0x1F, CHR 0x20]"

text \<open>\<^verbatim>\<open>s.strip()\<close>: whitespace removed at both ends.\<close>

definition strip :: "string \<Rightarrow> string" where
  "strip s = rev (dropWhile is_space (rev (dropWhile is_space s)))"

text \<open>
  \<^verbatim>\<open>s.replace(old, new)\<close> for a non-empty \<open>old\<close>: the occurrences are found from the
  left and do not overlap. (The source only calls it with the three sentinel strings.)
\<close>

function replace :: "string \<Rightarrow> string \<Rightarrow> string \<Rightarrow> string" where
  "replace old new [] = []"
| "replace old new (c # cs) =
     (if old \<noteq> [] \<and> prefix old (c # cs)
      then new @ replace old new (drop (length old) (c # cs))
      else c # replace old new cs)"
  by pat_completeness auto
termination
  by (relation "measure (\<lambda>(old, new, s). length s)") auto

text \<open>
  \<^verbatim>\<open>s.split()\<close> without arguments: the maximal runs of non-whitespace characters, in
  order. \<open>split_acc cur s\<close> carries the run read so far.
\<close>

fun split_acc :: "string \<Rightarrow> string \<Rightarrow> string list" where
  "split_acc cur [] = (if cur = [] then [] else [cur])"
| "split_acc cur (c # cs) =
     (if is_space c
      then (if cur = [] then split_acc [] cs else cur # split_acc [] cs)
      else split_acc (cur @ [c]) cs)"

definition split :: "string \<Rightarrow> string list" where
  "split s = split_acc [] s"

text \<open>\<^verbatim>\<open>s.lower()\<close> on ASCII text.\<close>

definition lower_char :: "char \<Rightarrow> char" where
  "lower_char c =
     (case map_of (zip ''ABCDEFGHIJKLMNOPQRSTUVWXYZ'' ''abcdefghijklmnopqrstuvwxyz'') c of
        Some d \<Rightarrow> d
      | None \<Rightarrow> c)"

definition lower :: "string \<Rightarrow> string" where
  "lower s = map lower_char s"

text \<open>\<^verbatim>\<open>k in s\<close> on strings: \<open>k\<close> occurs in \<open>s\<close> as a contiguous substring.\<close>

fun py_in :: "string \<Rightarrow> string \<Rightarrow> bool" where
  "py_in k [] \<longleftrightarrow> k = []"
| "py_in k (c # cs) \<longleftrightarrow> prefix k (c # cs) \<or> py_in k cs"


section \<open>The triplet decoder (\<^verbatim>\<open>Visualizer.extract_triplets\<close>)\<close>

text \<open>The dictionaries \<^verbatim>\<open>{'head': .., 'type': .., 'tail': ..}\<close> that the decoder emits.\<close>

record triplet =
  head :: string
  type :: string
  tail :: string

text \<open>
  The local variables of \<^verbatim>\<open>extract_triplets\<close>: the list built so far, the three
  accumulators and the one-letter mode \<^verbatim>\<open>current\<close> (\<open>x\<close>, \<open>t\<close>, \<open>s\<close> or \<open>o\<close>).
\<close>

record decoder =
  triplets :: "triplet list"
  relation :: string
  subject :: string
  object' :: string
  current :: char

definition pending :: "decoder \<Rightarrow> triplet" where
  "pending d = \<lparr>head = strip (subject d), type = strip (relation d), tail = strip (object' d)\<rparr>"

definition init :: decoder where
  "init = \<lparr>triplets = [], relation = [], subject = [], object' = [], current = CHR ''x''\<rparr>"

text \<open>One iteration of the \<^verbatim>\<open>for token in ...\<close> loop.\<close>

definition step :: "decoder \<Rightarrow> string \<Rightarrow> decoder" where
  "step d token =
     (if token = ''<triplet>'' then
        (let d1 = d\<lparr>current := CHR ''t''\<rparr>;
             d2 = (if relation d1 \<noteq> []
                   then d1\<lparr>triplets := triplets d1 @ [pending d1], relation := []\<rparr>
                   else d1)
         in d2\<lparr>subject := []\<rparr>)
      else if token = ''<subj>'' then
        (let d1 = d\<lparr>current := CHR ''s''\<rparr>;
             d2 = (if relation d1 \<noteq> []
                   then d1\<lparr>triplets := triplets d1 @ [pending d1]\<rparr>
                   else d1)
         in d2\<lparr>object' := []\<rparr>)
      else if token = ''<obj>'' then
        d\<lparr>current := CHR ''o'', relation := []\<rparr>
      else if current d = CHR ''t'' then d\<lparr>subject := subject d @ '' '' @ token\<rparr>
      else if current d = CHR ''s'' then d\<lparr>object' := object' d @ '' '' @ token\<rparr>
      else if current d = CHR ''o'' then d\<lparr>relation := relation d @ '' '' @ token\<rparr>
      else d)"

text \<open>The tokens the loop runs over.\<close>

definition tokens :: "string \<Rightarrow> string list" where
  "tokens text = split (replace ''</s>'' '''' (replace ''<pad>'' '''' (replace ''<s>'' '''' (strip text))))"

text \<open>The check after the loop, and the returned list.\<close>

definition finish :: "decoder \<Rightarrow> triplet list" where
  "finish d =
     (if subject d \<noteq> [] \<and> relation d \<noteq> [] \<and> object' d \<noteq> []
      then triplets d @ [pending d]
      else triplets d)"

definition run :: "decoder \<Rightarrow> string list \<Rightarrow> decoder" where
  "run d toks = foldl step d toks"

definition extract_triplets :: "string \<Rightarrow> triplet list" where
  "extract_triplets text = finish (run init (tokens text))"


section \<open>The causal filter and the extraction pipeline (\<^verbatim>\<open>extract_causal_relationships\<close>)\<close>

text \<open>The vocabulary that \<^verbatim>\<open>Visualizer.__init__\<close> stores in \<^verbatim>\<open>self.causal_keywords\<close>.\<close>

definition causal_keywords :: "string list" where
  "causal_keywords =
     [''encodes'', ''use'', ''uses'', ''based on'', ''connects with'', ''endemic to'',
      ''influenced by'', ''followed by'', ''follows'', ''has cause'', ''has effect'',
      ''inception'']"

text \<open>
  The condition of the final comprehension,
  \<^verbatim>\<open>any(k in t['type'].lower() for k in self.causal_keywords)\<close>, with the vocabulary as
  a parameter.
\<close>

definition is_causal :: "string list \<Rightarrow> triplet \<Rightarrow> bool" where
  "is_causal keywords t = list_ex (\<lambda>k. py_in k (lower (type t))) keywords"

text \<open>\<^verbatim>\<open>[text[i:i+n] for i in range(0, len(text), n)]\<close>; the source uses \<open>n = 1000\<close>.\<close>

function chunks :: "nat \<Rightarrow> string \<Rightarrow> string list" where
  "chunks n text = (if n = 0 \<or> text = [] then [] else take n text # chunks n (drop n text))"
  by pat_completeness auto
termination
  by (relation "measure (\<lambda>(n, text). length text)") auto

declare chunks.simps [simp del]

text \<open>
  The tokenizer and the sequence model are external. Their composition on one chunk
  (tokenize, generate, \<^verbatim>\<open>batch_decode\<close>) is the parameter \<open>gen\<close>: it returns the decoded
  sequences, or \<open>Inl e\<close> when one of the three calls raises the exception \<open>e\<close>.
  \<open>collect\<close> is the loop over the chunks; an exception leaves it at once.
\<close>

fun collect :: "(string \<Rightarrow> 'e + string list) \<Rightarrow> string list \<Rightarrow> triplet list \<Rightarrow> 'e + triplet list" where
  "collect gen [] all_triples = Inr all_triples"
| "collect gen (chunk # rest) all_triples =
     (case gen chunk of
        Inl e \<Rightarrow> Inl e
      | Inr decoded_preds \<Rightarrow>
          collect gen rest (all_triples @ concat (map extract_triplets decoded_preds)))"

text \<open>The \<^verbatim>\<open>try\<close> block and its \<^verbatim>\<open>except Exception\<close> handler, which returns \<^verbatim>\<open>[]\<close>.\<close>

definition extract_causal_relationships :: "(string \<Rightarrow> 'e + string list) \<Rightarrow> string \<Rightarrow> triplet list" where
  "extract_causal_relationships gen text =
     (case collect gen (chunks 1000 text) [] of
        Inl e \<Rightarrow> []
      | Inr all_triples \<Rightarrow> filter (is_causal causal_keywords) all_triples)"


section \<open>The graph store (the \<^verbatim>\<open>MERGE\<close> query of \<^verbatim>\<open>Visualizer.process\<close>)\<close>

text \<open>
  The database is external; what the query does to it is modelled after Cypher's
  \<^verbatim>\<open>MERGE\<close>: match the whole pattern, and create it only when nothing matches. The
  store holds the \<^verbatim>\<open>:Entity\<close> nodes (internal id and \<^verbatim>\<open>name\<close> property) and the
  \<^verbatim>\<open>:RELATION\<close> relationships (start node, \<^verbatim>\<open>type\<close> property, end node). Both are lists,
  so that duplicate names and parallel relationships can be represented.
\<close>

record graph_db =
  db_nodes :: "(nat \<times> string) list"
  db_rels :: "(nat \<times> string \<times> nat) list"
  next_id :: nat

definition empty_db :: graph_db where
  "empty_db = \<lparr>db_nodes = [], db_rels = [], next_id = 0\<rparr>"

definition match_entity :: "graph_db \<Rightarrow> string \<Rightarrow> nat list" where
  "match_entity db name = map fst (filter (\<lambda>(i, n). n = name) (db_nodes db))"

text \<open>
  \<^verbatim>\<open>MERGE (a:Entity {name: $name})\<close>: the updated store and the nodes bound to the
  variable, one per result row.
\<close>

definition merge_entity :: "string \<Rightarrow> graph_db \<Rightarrow> graph_db \<times> nat list" where
  "merge_entity name db =
     (let ms = match_entity db name
      in if ms = []
         then (db\<lparr>db_nodes := db_nodes db @ [(next_id db, name)], next_id := Suc (next_id db)\<rparr>,
               [next_id db])
         else (db, ms))"

text \<open>
  \<^verbatim>\<open>MERGE (a)-[:RELATION {type: $relation}]->(b)\<close> for bound \<open>a\<close> and \<open>b\<close>; \<open>ty\<close> is the
  query parameter \<^verbatim>\<open>$relation\<close>.
\<close>

definition merge_relation :: "nat \<Rightarrow> string \<Rightarrow> nat \<Rightarrow> graph_db \<Rightarrow> graph_db" where
  "merge_relation a ty b db =
     (if (a, ty, b) \<in> set (db_rels db) then db
      else db\<lparr>db_rels := db_rels db @ [(a, ty, b)]\<rparr>)"

text \<open>
  The three clauses of the query. Each clause runs once for every row that the clauses
  before it produced, and sees what the earlier rows wrote.
\<close>

definition merge_second :: "string \<Rightarrow> graph_db \<times> (nat \<times> nat) list \<Rightarrow> nat \<Rightarrow> graph_db \<times> (nat \<times> nat) list" where
  "merge_second entity_two acc a =
     (let (db', bs) = merge_entity entity_two (fst acc)
      in (db', snd acc @ map (Pair a) bs))"

definition run_query :: "string \<Rightarrow> string \<Rightarrow> string \<Rightarrow> graph_db \<Rightarrow> graph_db" where
  "run_query entity_one entity_two ty db =
     (let (db1, as) = merge_entity entity_one db;
          (db2, rows) = foldl (merge_second entity_two) (db1, []) as
      in foldl (\<lambda>d (a, b). merge_relation a ty b d) db2 rows)"

text \<open>Storing one relationship of an article, as the inner loop of \<^verbatim>\<open>process\<close> does.\<close>

definition upsert :: "triplet \<Rightarrow> graph_db \<Rightarrow> graph_db" where
  "upsert t db = run_query (head t) (tail t) (type t) db"

definition upsert_all :: "triplet list \<Rightarrow> graph_db \<Rightarrow> graph_db" where
  "upsert_all ts db = foldl (\<lambda>d t. upsert t d) db ts"

text \<open>Counting the entities with a given name and the edges with a given key.\<close>

definition entities_named :: "graph_db \<Rightarrow> string \<Rightarrow> nat" where
  "entities_named db name = length (match_entity db name)"

definition edge_key :: "graph_db \<Rightarrow> nat \<times> string \<times> nat \<Rightarrow> string option \<times> string option \<times> string" where
  "edge_key db r =
     (case r of (a, ty, b) \<Rightarrow> (map_of (db_nodes db) a, map_of (db_nodes db) b, ty))"

definition edges_keyed :: "graph_db \<Rightarrow> string \<Rightarrow> string \<Rightarrow> string \<Rightarrow> nat" where
  "edges_keyed db src dst ty =
     length (filter (\<lambda>r. edge_key db r = (Some src, Some dst, ty)) (db_rels db))"

text \<open>The merge keys are unique: the invariant of every store built by upserts.\<close>

definition wf_db :: "graph_db \<Rightarrow> bool" where
  "wf_db db \<longleftrightarrow>
     distinct (map fst (db_nodes db)) \<and> distinct (map snd (db_nodes db)) \<and>
     list_all (\<lambda>(i, n). i < next_id db) (db_nodes db) \<and>
     distinct (db_rels db) \<and>
     list_all (\<lambda>(a, ty, b). a \<in> fst ` set (db_nodes db) \<and> b \<in> fst ` set (db_nodes db)) (db_rels db)"


section \<open>Building the graph from JSON (\<^verbatim>\<open>Clustering.create_graph\<close>)\<close>

datatype py_error = KeyError | TypeError

text \<open>
  The input format: a node object has the keys \<^verbatim>\<open>id\<close>, \<^verbatim>\<open>labels\<close> and \<^verbatim>\<open>properties\<close>,
  a relationship object the keys \<^verbatim>\<open>start\<close>, \<^verbatim>\<open>end\<close>, \<^verbatim>\<open>type\<close> and \<^verbatim>\<open>properties\<close>; the
  two \<^verbatim>\<open>properties\<close> are objects with any keys. \<open>'id\<close> is the type of node ids (hashable
  JSON scalars), \<open>'v\<close> the type of attribute values.
\<close>

record ('id, 'v) node =
  node_id :: 'id
  node_labels :: 'v
  node_properties :: "string \<rightharpoonup> 'v"

record ('id, 'v) relationship =
  rel_start :: 'id
  rel_end :: 'id
  rel_type :: 'v
  rel_properties :: "string \<rightharpoonup> 'v"

record ('id, 'v) graph_data =
  gd_nodes :: "('id, 'v) node list"
  gd_relationships :: "('id, 'v) relationship list"

text \<open>
  An undirected \<^verbatim>\<open>networkx.Graph\<close>: the nodes with their attribute dictionaries in
  insertion order, and one entry per edge, whose endpoints are an unordered pair.
\<close>

record ('id, 'v) nx_graph =
  node_attrs :: "('id \<times> (string \<rightharpoonup> 'v)) list"
  adj :: "(('id \<times> 'id) \<times> (string \<rightharpoonup> 'v)) list"

definition empty_graph :: "('id, 'v) nx_graph" where
  "empty_graph = \<lparr>node_attrs = [], adj = []\<rparr>"

text \<open>\<^verbatim>\<open>n in G\<close>.\<close>

definition has_node :: "('id, 'v) nx_graph \<Rightarrow> 'id \<Rightarrow> bool" where
  "has_node G n \<longleftrightarrow> n \<in> fst ` set (node_attrs G)"

text \<open>\<^verbatim>\<open>G.add_node(n, **attr)\<close>: a new node, or an update of the attributes of an old one.\<close>

definition add_node :: "('id, 'v) nx_graph \<Rightarrow> 'id \<Rightarrow> (string \<rightharpoonup> 'v) \<Rightarrow> ('id, 'v) nx_graph" where
  "add_node G n attr =
     (if has_node G n
      then G\<lparr>node_attrs := map (\<lambda>(m, a). if m = n then (m, a ++ attr) else (m, a)) (node_attrs G)\<rparr>
      else G\<lparr>node_attrs := node_attrs G @ [(n, attr)]\<rparr>)"

definition same_edge :: "'id \<times> 'id \<Rightarrow> 'id \<times> 'id \<Rightarrow> bool" where
  "same_edge e f \<longleftrightarrow> e = f \<or> e = (snd f, fst f)"

definition has_edge :: "('id, 'v) nx_graph \<Rightarrow> 'id \<Rightarrow> 'id \<Rightarrow> bool" where
  "has_edge G u v \<longleftrightarrow> list_ex (\<lambda>(e, a). same_edge (u, v) e) (adj G)"

text \<open>
  \<^verbatim>\<open>G.add_edge(u, v, **attr)\<close>: missing endpoints are added as nodes; an edge that is
  already there (in either direction) has its attributes updated.
\<close>

definition add_edge :: "('id, 'v) nx_graph \<Rightarrow> 'id \<Rightarrow> 'id \<Rightarrow> (string \<rightharpoonup> 'v) \<Rightarrow> ('id, 'v) nx_graph" where
  "add_edge G u v attr =
     (let G1 = (if has_node G u then G else add_node G u Map.empty);
          G2 = (if has_node G1 v then G1 else add_node G1 v Map.empty)
      in if has_edge G2 u v
         then G2\<lparr>adj := map (\<lambda>(e, a). if same_edge (u, v) e then (e, a ++ attr) else (e, a)) (adj G2)\<rparr>
         else G2\<lparr>adj := adj G2 @ [((u, v), attr)]\<rparr>)"

definition number_of_edges :: "('id, 'v) nx_graph \<Rightarrow> nat" where
  "number_of_edges G = length (adj G)"

text \<open>
  The call \<^verbatim>\<open>G.add_node(node["id"], labels=node["labels"], **node["properties"])\<close> raises
  a \<^verbatim>\<open>TypeError\<close> when a property is named like one of the other arguments of the call.
\<close>

definition kw_clash :: "(string \<rightharpoonup> 'v) \<Rightarrow> bool" where
  "kw_clash props \<longleftrightarrow>
     ''labels'' \<in> dom props \<or> ''node_for_adding'' \<in> dom props \<or> ''self'' \<in> dom props"

text \<open>The first loop of \<^verbatim>\<open>create_graph\<close>.\<close>

fun add_nodes :: "('id, 'v) nx_graph \<Rightarrow> ('id, 'v) node list \<Rightarrow> py_error + ('id, 'v) nx_graph" where
  "add_nodes G [] = Inr G"
| "add_nodes G (node # rest) =
     (if kw_clash (node_properties node) then Inl TypeError
      else add_nodes (add_node G (node_id node) ((node_properties node)(''labels'' \<mapsto> node_labels node))) rest)"

text \<open>
  The second loop. The arguments of \<^verbatim>\<open>add_edge\<close> are evaluated before the call, so a
  missing \<^verbatim>\<open>rel['properties']['type']\<close> raises a \<^verbatim>\<open>KeyError\<close> and no edge is added.
\<close>

fun add_relationships ::
  "('id, 'v) nx_graph \<Rightarrow> ('id, 'v) relationship list \<Rightarrow> py_error + ('id, 'v) nx_graph" where
  "add_relationships G [] = Inr G"
| "add_relationships G (rel # rest) =
     (if has_node G (rel_start rel) \<and> has_node G (rel_end rel)
      then (case rel_properties rel ''type'' of
              None \<Rightarrow> Inl KeyError
            | Some name \<Rightarrow>
                add_relationships
                  (add_edge G (rel_start rel) (rel_end rel) [''type'' \<mapsto> rel_type rel, ''name'' \<mapsto> name])
                  rest)
      else add_relationships G rest)"

text \<open>
  \<^verbatim>\<open>self.graph_data\<close> is \<^verbatim>\<open>None\<close> until \<^verbatim>\<open>read_json\<close> has loaded a file; subscripting
  \<^verbatim>\<open>None\<close> raises a \<^verbatim>\<open>TypeError\<close>.
\<close>

definition create_graph :: "('id, 'v) graph_data option \<Rightarrow> py_error + ('id, 'v) nx_graph" where
  "create_graph graph_data =
     (case graph_data of
        None \<Rightarrow> Inl TypeError
      | Some gd \<Rightarrow>
          (case add_nodes empty_graph (gd_nodes gd) of
             Inl e \<Rightarrow> Inl e
           | Inr G \<Rightarrow> add_relationships G (gd_relationships gd)))"

text \<open>A relationship both of whose endpoints are declared as nodes of the description.\<close>

definition declared :: "('id, 'v) graph_data \<Rightarrow> ('id, 'v) relationship \<Rightarrow> bool" where
  "declared gd rel \<longleftrightarrow>
     rel_start rel \<in> node_id ` set (gd_nodes gd) \<and> rel_end rel \<in> node_id ` set (gd_nodes gd)"


section \<open>Properties of the triplet decoder\<close>

text \<open>
  C1. For the input \<^verbatim>\<open><triplet> Paris <subj> France <obj> capital_of\<close> the decoder returns
  exactly one triple, with head \<open>Paris\<close>, type \<open>capital_of\<close> (the text after \<^verbatim>\<open><obj>\<close>)
  and tail \<open>France\<close> (the text after \<^verbatim>\<open><subj>\<close>).
\<close>

theorem extract_triplets_paris:
  "extract_triplets ''<triplet> Paris <subj> France <obj> capital_of''
     = [\<lparr>head = ''Paris'', type = ''capital_of'', tail = ''France''\<rparr>]"
  by (simp add: extract_triplets_def tokens_def split_def is_space_def strip_def run_def
      step_def init_def finish_def pending_def)

text \<open>What one token adds to the list: only the two emitting markers add anything.\<close>

lemma step_triplets:
  "triplets (step d tok) =
     (if (tok = ''<triplet>'' \<or> tok = ''<subj>'') \<and> relation d \<noteq> [] then triplets d @ [pending d]
      else triplets d)"
  by (simp add: step_def Let_def pending_def)

lemma step_triplet_relation: "relation (step d ''<triplet>'') = []"
  by (simp add: step_def Let_def)

lemma run_triplet_markers:
  "relation d = [] \<Longrightarrow> triplets (run d (replicate n ''<triplet>'')) = triplets d"
proof (induction n arbitrary: d)
  case 0
  then show ?case by (simp add: run_def)
next
  case (Suc n)
  have "triplets (run (step d ''<triplet>'') (replicate n ''<triplet>'')) = triplets (step d ''<triplet>'')"
    by (rule Suc.IH) (rule step_triplet_relation)
  with Suc.prems show ?case by (simp add: run_def step_triplets)
qed

lemma run_emissions:
  "length (triplets (run d toks))
     \<le> length (triplets d) + length (filter (\<lambda>t. t = ''<triplet>'' \<or> t = ''<subj>'') toks)"
proof (induction toks arbitrary: d)
  case Nil
  then show ?case by (simp add: run_def)
next
  case (Cons tok toks)
  have a: "length (triplets (run (step d tok) toks))
     \<le> length (triplets (step d tok)) + length (filter (\<lambda>t. t = ''<triplet>'' \<or> t = ''<subj>'') toks)"
    by (rule Cons.IH)
  have b: "length (triplets (step d tok))
     \<le> length (triplets d) + length (filter (\<lambda>t. t = ''<triplet>'' \<or> t = ''<subj>'') [tok])"
    by (simp add: step_triplets)
  have c: "run d (tok # toks) = run (step d tok) toks"
    by (simp add: run_def)
  have e: "length (filter (\<lambda>t. t = ''<triplet>'' \<or> t = ''<subj>'') (tok # toks))
     = length (filter (\<lambda>t. t = ''<triplet>'' \<or> t = ''<subj>'') [tok])
       + length (filter (\<lambda>t. t = ''<triplet>'' \<or> t = ''<subj>'') toks)"
    by simp
  show ?case unfolding c e using a b by linarith
qed

text \<open>
  C3. Every token, so every marker, appends at most one triple, and what it appends is the
  pending triple. A run of \<^verbatim>\<open><triplet>\<close> markers emits the pending triple once, at its
  first marker, when the relation accumulator is non-empty there, and nothing otherwise: the
  first marker empties the accumulator. Over a whole token list no more triples are emitted
  than there are \<^verbatim>\<open><triplet>\<close> and \<^verbatim>\<open><subj>\<close> markers.
\<close>

theorem marker_emits_once:
  "(triplets (step d tok) = triplets d \<or> triplets (step d tok) = triplets d @ [pending d])
   \<and> triplets (run d (replicate (Suc n) ''<triplet>''))
       = (if relation d = [] then triplets d else triplets d @ [pending d])
   \<and> length (triplets (run d toks))
       \<le> length (triplets d) + length (filter (\<lambda>t. t = ''<triplet>'' \<or> t = ''<subj>'') toks)"
proof (intro conjI)
  show "triplets (step d tok) = triplets d \<or> triplets (step d tok) = triplets d @ [pending d]"
    by (simp add: step_triplets)
  have "triplets (run (step d ''<triplet>'') (replicate n ''<triplet>'')) = triplets (step d ''<triplet>'')"
    by (rule run_triplet_markers) (rule step_triplet_relation)
  then show "triplets (run d (replicate (Suc n) ''<triplet>''))
       = (if relation d = [] then triplets d else triplets d @ [pending d])"
    by (simp add: run_def step_triplets)
  show "length (triplets (run d toks))
       \<le> length (triplets d) + length (filter (\<lambda>t. t = ''<triplet>'' \<or> t = ''<subj>'') toks)"
    by (rule run_emissions)
qed

theorem marker_emits_once_witness:
  "triplets (run \<lparr>triplets = [], relation = '' r'', subject = '' a'', object' = '' b'', current = CHR ''o''\<rparr>
      (replicate (Suc 2) ''<triplet>''))
     = [\<lparr>head = ''a'', type = ''r'', tail = ''b''\<rparr>]"
  using marker_emits_once [of "\<lparr>triplets = [], relation = '' r'', subject = '' a'', object' = '' b'', current = CHR ''o''\<rparr>"
      "''<triplet>''" 2 "[]"]
  by (simp add: pending_def strip_def is_space_def)

text \<open>
  C9. The \<^verbatim>\<open><subj>\<close> marker leaves the relation accumulator as it is, also when it emits.
  On \<^verbatim>\<open><triplet> a <subj> b <obj> r <subj> c <triplet>\<close> the second \<^verbatim>\<open><subj>\<close> emits
  \<open>(a, r, b)\<close> and the closing \<^verbatim>\<open><triplet>\<close> emits \<open>(a, r, c)\<close>: the same head and
  relation with another tail.
\<close>

theorem subj_keeps_relation:
  "relation (step d ''<subj>'') = relation d
   \<and> extract_triplets ''<triplet> a <subj> b <obj> r <subj> c <triplet>''
       = [\<lparr>head = ''a'', type = ''r'', tail = ''b''\<rparr>, \<lparr>head = ''a'', type = ''r'', tail = ''c''\<rparr>]"
proof
  show "relation (step d ''<subj>'') = relation d"
    by (simp add: step_def Let_def)
  show "extract_triplets ''<triplet> a <subj> b <obj> r <subj> c <triplet>''
       = [\<lparr>head = ''a'', type = ''r'', tail = ''b''\<rparr>, \<lparr>head = ''a'', type = ''r'', tail = ''c''\<rparr>]"
    by (simp add: extract_triplets_def tokens_def split_def is_space_def strip_def run_def
        step_def init_def finish_def pending_def)
qed


section \<open>Properties of the causal filter and of the pipeline\<close>

text \<open>The substring test computes what it should.\<close>

lemma py_in_iff: "py_in k s \<longleftrightarrow> (\<exists>xs ys. s = xs @ k @ ys)"
proof -
  have "py_in k s \<longleftrightarrow> sublist k s"
    by (induction s) (simp_all add: sublist_Cons_right)
  then show ?thesis by (simp add: sublist_def)
qed

text \<open>
  C7. The filter accepts a triple exactly when the lower-cased type contains a phrase of the
  vocabulary as a substring. Against the vocabulary \<open>{has effect}\<close> the type
  \<open>Has effect on\<close> is accepted and the type \<open>located in\<close> is rejected.
\<close>

theorem is_causal_substring:
  "(is_causal keywords t \<longleftrightarrow> (\<exists>k xs ys. k \<in> set keywords \<and> lower (type t) = xs @ k @ ys))
   \<and> is_causal [''has effect''] \<lparr>head = x, type = ''Has effect on'', tail = y\<rparr>
   \<and> \<not> is_causal [''has effect''] \<lparr>head = x, type = ''located in'', tail = y\<rparr>"
proof (intro conjI)
  show "is_causal keywords t \<longleftrightarrow> (\<exists>k xs ys. k \<in> set keywords \<and> lower (type t) = xs @ k @ ys)"
    by (auto simp: is_causal_def list_ex_iff py_in_iff)
  show "is_causal [''has effect''] \<lparr>head = x, type = ''Has effect on'', tail = y\<rparr>"
    by (simp add: is_causal_def lower_def lower_char_def)
  show "\<not> is_causal [''has effect''] \<lparr>head = x, type = ''located in'', tail = y\<rparr>"
    by (simp add: is_causal_def lower_def lower_char_def)
qed

text \<open>The loop over the chunks fails as soon as the generator fails on one of them.\<close>

lemma collect_fails:
  "c \<in> set cs \<Longrightarrow> gen c = Inl e \<Longrightarrow> \<exists>e'. collect gen cs acc = Inl e'"
  by (induction cs arbitrary: acc) (auto split: sum.splits)

text \<open>
  C6. When the generator (tokenizing, generating or decoding) raises on any chunk of the
  text, the extraction call returns the empty list: nothing that earlier chunks produced is
  returned, and the exception does not leave the call.
\<close>

theorem extract_fail:
  "c \<in> set (chunks 1000 text) \<Longrightarrow> gen c = Inl e \<Longrightarrow> extract_causal_relationships gen text = []"
  using collect_fails [of c "chunks 1000 text" gen e "[]"]
  by (auto simp: extract_causal_relationships_def)

text \<open>
  A text of two chunks: the first chunk yields a causal triple, the generator fails on the
  second, and the call returns nothing.
\<close>

theorem extract_fail_witness:
  "take 1000 ''b'' \<in> set (chunks 1000 (replicate 1000 (CHR ''a'') @ ''b''))
   \<and> collect (\<lambda>c. if length c = 1000 then Inr [''<triplet> a <subj> b <obj> uses''] else Inl ())
        [replicate 1000 (CHR ''a'')] []
      = Inr [\<lparr>head = ''a'', type = ''uses'', tail = ''b''\<rparr>]
   \<and> extract_causal_relationships
        (\<lambda>c. if length c = 1000 then Inr [''<triplet> a <subj> b <obj> uses''] else Inl ())
        (replicate 1000 (CHR ''a'') @ ''b'') = []"
proof -
  have c: "chunks 1000 (replicate 1000 (CHR ''a'') @ ''b'') = [replicate 1000 (CHR ''a''), ''b'']"
    by (simp add: chunks.simps[of 1000])
  have d: "extract_triplets ''<triplet> a <subj> b <obj> uses'' = [\<lparr>head = ''a'', type = ''uses'', tail = ''b''\<rparr>]"
    by (simp add: extract_triplets_def tokens_def split_def is_space_def strip_def run_def
      step_def init_def finish_def pending_def)
  have m: "take 1000 ''b'' \<in> set (chunks 1000 (replicate 1000 (CHR ''a'') @ ''b''))"
    by (simp add: c)
  show ?thesis
    using extract_fail [OF m, of "\<lambda>c. if length c = 1000 then Inr [''<triplet> a <subj> b <obj> uses''] else Inl ()" "()"] m
    by (simp add: d)
qed


section \<open>Properties of the graph store\<close>

text \<open>Under the invariant the name of an entity determines its node.\<close>

lemma match_unique:
  "distinct (map snd xs) \<Longrightarrow> (i, name) \<in> set xs \<Longrightarrow>
   map fst (filter (\<lambda>(j, n). n = name) xs) = [i]"
proof (induction xs)
  case Nil
  then show ?case by simp
next
  case (Cons x xs)
  obtain j n where x: "x = (j, n)" by (cases x)
  show ?case
  proof (cases "n = name")
    case True
    with Cons.prems x have "\<forall>y\<in>set xs. snd y \<noteq> name" by auto
    then have "filter (\<lambda>(j, n). n = name) xs = []"
      by (auto simp: filter_empty_conv)
    moreover from Cons.prems x True have "i = j" by (auto simp: image_iff)
    ultimately show ?thesis using x True by simp
  next
    case False
    with Cons x show ?thesis by auto
  qed
qed

lemma match_absent:
  "name \<notin> snd ` set xs \<Longrightarrow> map fst (filter (\<lambda>(j, n). n = name) xs) = []"
  by (force simp: filter_empty_conv)

lemma merge_entity_present:
  "wf_db db \<Longrightarrow> (i, name) \<in> set (db_nodes db) \<Longrightarrow> merge_entity name db = (db, [i])"
  by (simp add: merge_entity_def match_entity_def wf_db_def match_unique)

lemma merge_entity_absent:
  "name \<notin> snd ` set (db_nodes db) \<Longrightarrow>
   merge_entity name db =
     (db\<lparr>db_nodes := db_nodes db @ [(next_id db, name)], next_id := Suc (next_id db)\<rparr>, [next_id db])"
  by (simp add: merge_entity_def match_entity_def match_absent)

lemma wf_add_node:
  assumes "wf_db db" "name \<notin> snd ` set (db_nodes db)"
  shows "wf_db (db\<lparr>db_nodes := db_nodes db @ [(next_id db, name)], next_id := Suc (next_id db)\<rparr>)"
proof -
  from assms(1) have lt: "\<forall>(i, n)\<in>set (db_nodes db). i < next_id db"
    by (simp add: wf_db_def list_all_iff)
  then have "next_id db \<notin> fst ` set (db_nodes db)" by force
  with assms lt show ?thesis
    by (auto simp: wf_db_def list_all_iff less_Suc_eq)
qed

text \<open>Under the invariant a \<^verbatim>\<open>MERGE\<close> of an entity binds exactly one node.\<close>

lemma merge_entity_wf:
  assumes "wf_db db"
  shows "\<exists>db' i. merge_entity name db = (db', [i]) \<and> wf_db db' \<and> (i, name) \<in> set (db_nodes db')
          \<and> set (db_nodes db) \<subseteq> set (db_nodes db') \<and> db_rels db' = db_rels db"
proof (cases "name \<in> snd ` set (db_nodes db)")
  case True
  then obtain i where "(i, name) \<in> set (db_nodes db)" by force
  with assms show ?thesis by (auto simp: merge_entity_present)
next
  case False
  with assms show ?thesis by (auto simp: merge_entity_absent wf_add_node)
qed

lemma wf_merge_relation:
  "wf_db db \<Longrightarrow> a \<in> fst ` set (db_nodes db) \<Longrightarrow> b \<in> fst ` set (db_nodes db) \<Longrightarrow>
   wf_db (merge_relation a ty b db)"
  by (auto simp: wf_db_def merge_relation_def list_all_iff)

lemma run_query_wf:
  assumes "wf_db db"
  shows "\<exists>db2 a b. run_query h t2 ty db = merge_relation a ty b db2 \<and> wf_db db2
          \<and> (a, h) \<in> set (db_nodes db2) \<and> (b, t2) \<in> set (db_nodes db2)"
proof -
  from merge_entity_wf[OF assms, of h] obtain db1 a where
    1: "merge_entity h db = (db1, [a])" "wf_db db1" "(a, h) \<in> set (db_nodes db1)"
    by blast
  from merge_entity_wf[OF 1(2), of t2] obtain db2 b where
    2: "merge_entity t2 db1 = (db2, [b])" "wf_db db2" "(b, t2) \<in> set (db_nodes db2)"
       "set (db_nodes db1) \<subseteq> set (db_nodes db2)"
    by blast
  have "run_query h t2 ty db = merge_relation a ty b db2"
    by (simp add: run_query_def merge_second_def 1 2)
  with 1 2 show ?thesis by blast
qed

lemma node_ids: "(a, h) \<in> set xs \<Longrightarrow> a \<in> fst ` set xs"
  by force

lemma wf_run_query: "wf_db db \<Longrightarrow> wf_db (run_query h t2 ty db)"
  using run_query_wf[of db h t2 ty] by (auto intro!: wf_merge_relation node_ids)

lemma wf_upsert: "wf_db db \<Longrightarrow> wf_db (upsert t db)"
  by (simp add: upsert_def wf_run_query)

lemma wf_empty: "wf_db empty_db"
  by (simp add: wf_db_def empty_db_def)

lemma wf_upsert_all: "wf_db db \<Longrightarrow> wf_db (upsert_all ts db)"
  by (induction ts arbitrary: db) (simp_all add: upsert_all_def wf_upsert)

lemma merge_relation_nodes: "db_nodes (merge_relation a ty b db) = db_nodes db"
  by (simp add: merge_relation_def)

lemma merge_relation_mem: "(a, ty, b) \<in> set (db_rels (merge_relation a ty b db))"
  by (simp add: merge_relation_def)

text \<open>After the query the three parts of its pattern are in the store.\<close>

lemma run_query_present:
  assumes "wf_db db"
  shows "\<exists>a b. (a, h) \<in> set (db_nodes (run_query h t2 ty db)) \<and>
               (b, t2) \<in> set (db_nodes (run_query h t2 ty db)) \<and>
               (a, ty, b) \<in> set (db_rels (run_query h t2 ty db))"
proof -
  from run_query_wf[OF assms, of h t2 ty] obtain db2 a b where
    q: "run_query h t2 ty db = merge_relation a ty b db2"
       "(a, h) \<in> set (db_nodes db2)" "(b, t2) \<in> set (db_nodes db2)"
    by blast
  have "(a, h) \<in> set (db_nodes (run_query h t2 ty db))"
    and "(b, t2) \<in> set (db_nodes (run_query h t2 ty db))"
    and "(a, ty, b) \<in> set (db_rels (run_query h t2 ty db))"
    using q by (simp_all add: merge_relation_nodes merge_relation_mem)
  then show ?thesis by blast
qed

lemma run_query_noop:
  assumes "wf_db db" "(a, h) \<in> set (db_nodes db)" "(b, t2) \<in> set (db_nodes db)"
    "(a, ty, b) \<in> set (db_rels db)"
  shows "run_query h t2 ty db = db"
  using assms
  by (simp add: run_query_def merge_second_def merge_entity_present merge_relation_def)

lemma entities_named_one:
  "wf_db db \<Longrightarrow> (a, h) \<in> set (db_nodes db) \<Longrightarrow> entities_named db h = 1"
  by (simp add: entities_named_def match_entity_def wf_db_def match_unique)

lemma edge_key_unique:
  assumes "wf_db db" "(a, h) \<in> set (db_nodes db)" "(b, t2) \<in> set (db_nodes db)"
    "r \<in> set (db_rels db)"
  shows "edge_key db r = (Some h, Some t2, ty) \<longleftrightarrow> r = (a, ty, b)"
proof -
  from assms(1) have d1: "distinct (map fst (db_nodes db))" and d2: "distinct (map snd (db_nodes db))"
    by (simp_all add: wf_db_def)
  have name: "map_of (db_nodes db) i = Some n \<longleftrightarrow> (i, n) \<in> set (db_nodes db)" for i n
    using d1 by simp
  have inj: "(i, n) \<in> set (db_nodes db) \<Longrightarrow> (j, n) \<in> set (db_nodes db) \<Longrightarrow> i = j" for i j n
    using d2 by (metis match_unique list.inject)
  obtain a' ty' b' where r: "r = (a', ty', b')" by (cases r)
  show ?thesis using assms(2,3) inj by (auto simp: edge_key_def r name)
qed

lemma count_one: "distinct xs \<Longrightarrow> x \<in> set xs \<Longrightarrow> length (filter (\<lambda>r. r = x) xs) = 1"
  by (induction xs) (auto simp: filter_empty_conv)

lemma edges_keyed_one:
  assumes "wf_db db" "(a, h) \<in> set (db_nodes db)" "(b, t2) \<in> set (db_nodes db)"
    "(a, ty, b) \<in> set (db_rels db)"
  shows "edges_keyed db h t2 ty = 1"
proof -
  have "filter (\<lambda>r. edge_key db r = (Some h, Some t2, ty)) (db_rels db)
        = filter (\<lambda>r. r = (a, ty, b)) (db_rels db)"
    by (rule filter_cong) (simp_all add: edge_key_unique[OF assms(1-3)])
  moreover from assms(1) have "distinct (db_rels db)" by (simp add: wf_db_def)
  then have "length (filter (\<lambda>r. r = (a, ty, b)) (db_rels db)) = 1"
    using assms(4) by (rule count_one)
  ultimately show ?thesis by (simp add: edges_keyed_def)
qed


lemma upsert_again:
  assumes "wf_db db"
  shows "upsert t (upsert t db) = upsert t db"
proof -
  from run_query_present[OF assms, of "head t" "tail t" "type t"] obtain a b where
    "(a, head t) \<in> set (db_nodes (upsert t db))" "(b, tail t) \<in> set (db_nodes (upsert t db))"
    "(a, type t, b) \<in> set (db_rels (upsert t db))"
    by (auto simp: upsert_def)
  moreover have "wf_db (upsert t db)" using assms by (rule wf_upsert)
  ultimately have "run_query (head t) (tail t) (type t) (upsert t db) = upsert t db"
    by (intro run_query_noop)
  then show ?thesis by (simp add: upsert_def)
qed

lemma upsert_repeat:
  assumes "wf_db db"
  shows "(upsert t ^^ Suc n) db = upsert t db"
  by (induction n) (simp_all add: upsert_again[OF assms])

lemma upsert_counts:
  assumes "wf_db db"
  shows "entities_named (upsert t db) (head t) = 1 \<and> entities_named (upsert t db) (tail t) = 1
         \<and> edges_keyed (upsert t db) (head t) (tail t) (type t) = 1"
proof -
  from run_query_present[OF assms, of "head t" "tail t" "type t"] obtain a b where
    p: "(a, head t) \<in> set (db_nodes (upsert t db))" "(b, tail t) \<in> set (db_nodes (upsert t db))"
    "(a, type t, b) \<in> set (db_rels (upsert t db))"
    by (auto simp: upsert_def)
  have w: "wf_db (upsert t db)" using assms by (rule wf_upsert)
  show ?thesis using w p by (simp add: entities_named_one edges_keyed_one)
qed

text \<open>
  C2. In a store built by upserts from the empty store, upserting a triple \<open>N \<ge> 1\<close> times
  leaves exactly one entity named as its head, exactly one named as its tail and exactly one
  edge with the key (head, tail, type). The result is the store after the first of the \<open>N\<close>
  upserts, and one more upsert of the triple changes nothing.
\<close>

theorem upsert_idempotent:
  "0 < N \<Longrightarrow>
   entities_named ((upsert t ^^ N) (upsert_all ts empty_db)) (head t) = 1 \<and>
   entities_named ((upsert t ^^ N) (upsert_all ts empty_db)) (tail t) = 1 \<and>
   edges_keyed ((upsert t ^^ N) (upsert_all ts empty_db)) (head t) (tail t) (type t) = 1 \<and>
   (upsert t ^^ N) (upsert_all ts empty_db) = upsert t (upsert_all ts empty_db) \<and>
   upsert t ((upsert t ^^ N) (upsert_all ts empty_db)) = (upsert t ^^ N) (upsert_all ts empty_db)"
proof -
  assume "0 < N"
  then obtain n where N: "N = Suc n" by (cases N) auto
  have w: "wf_db (upsert_all ts empty_db)" by (rule wf_upsert_all) (rule wf_empty)
  have r: "(upsert t ^^ N) (upsert_all ts empty_db) = upsert t (upsert_all ts empty_db)"
    unfolding N by (rule upsert_repeat[OF w])
  show ?thesis unfolding r using upsert_counts[OF w, of t] upsert_again[OF w, of t] by simp
qed

theorem upsert_idempotent_witness:
  "(0::nat) < 3 \<and>
   entities_named ((upsert \<lparr>head = ''rain'', type = ''has effect'', tail = ''flood''\<rparr> ^^ 3)
      (upsert_all [\<lparr>head = ''flood'', type = ''has cause'', tail = ''storm''\<rparr>] empty_db)) ''rain'' = 1 \<and>
   edges_keyed ((upsert \<lparr>head = ''rain'', type = ''has effect'', tail = ''flood''\<rparr> ^^ 3)
      (upsert_all [\<lparr>head = ''flood'', type = ''has cause'', tail = ''storm''\<rparr>] empty_db))
      ''rain'' ''flood'' ''has effect'' = 1"
proof -
  have n: "(0::nat) < 3" by simp
  note e = upsert_idempotent [OF n, of "\<lparr>head = ''rain'', type = ''has effect'', tail = ''flood''\<rparr>"
      "[\<lparr>head = ''flood'', type = ''has cause'', tail = ''storm''\<rparr>]", unfolded triplet.select_convs]
  from e n show ?thesis by blast
qed


section \<open>Properties of the graph builder\<close>

lemma has_node_add_node: "has_node (add_node G n a) m \<longleftrightarrow> has_node G m \<or> m = n"
  by (force simp: has_node_def add_node_def image_iff split: if_splits)

lemma adj_add_node: "adj (add_node G n a) = adj G"
  by (simp add: add_node_def)

lemma has_node_add_edge: "has_node (add_edge G u v a) m \<longleftrightarrow> has_node G m \<or> m = u \<or> m = v"
proof -
  have "has_node (add_edge G u v a) m \<longleftrightarrow>
        has_node (if has_node (if has_node G u then G else add_node G u Map.empty) v
                  then (if has_node G u then G else add_node G u Map.empty)
                  else add_node (if has_node G u then G else add_node G u Map.empty) v Map.empty) m"
    by (simp add: add_edge_def Let_def has_node_def)
  then show ?thesis by (auto simp: has_node_add_node)
qed

lemma has_node_add_edge_present:
  "has_node G u \<Longrightarrow> has_node G v \<Longrightarrow> has_node (add_edge G u v a) = has_node G"
  by (rule ext) (auto simp: has_node_add_edge)

lemma edges_add_edge:
  "has_node G u \<Longrightarrow> has_node G v \<Longrightarrow> number_of_edges (add_edge G u v a) \<le> Suc (number_of_edges G)"
  by (simp add: add_edge_def number_of_edges_def)

lemma add_nodes_result:
  "add_nodes G ns = Inr G' \<Longrightarrow>
   adj G' = adj G \<and> (\<forall>m. has_node G' m \<longleftrightarrow> has_node G m \<or> m \<in> node_id ` set ns)"
proof (induction ns arbitrary: G)
  case Nil
  then show ?case by simp
next
  case (Cons n ns)
  from Cons.prems have
    "add_nodes (add_node G (node_id n) ((node_properties n)(''labels'' \<mapsto> node_labels n))) ns = Inr G'"
    by (simp split: if_splits)
  from Cons.IH[OF this] show ?case
    by (auto simp: has_node_add_node adj_add_node)
qed

lemma add_relationships_filter:
  "add_relationships G rs
     = add_relationships G (filter (\<lambda>r. has_node G (rel_start r) \<and> has_node G (rel_end r)) rs)"
proof (induction rs arbitrary: G)
  case Nil
  then show ?case by simp
next
  case (Cons r rs)
  show ?case
  proof (cases "has_node G (rel_start r) \<and> has_node G (rel_end r)")
    case False
    then show ?thesis using Cons.IH[of G] by auto
  next
    case True
    show ?thesis
    proof (cases "rel_properties r ''type''")
      case None
      with True show ?thesis by simp
    next
      case (Some name)
      let ?G = "add_edge G (rel_start r) (rel_end r) [''type'' \<mapsto> rel_type r, ''name'' \<mapsto> name]"
      have "has_node ?G = has_node G"
        using True by (simp add: has_node_add_edge_present)
      with Cons.IH[of ?G] True Some show ?thesis by simp
    qed
  qed
qed

lemma add_relationships_edges:
  "add_relationships G rs = Inr G' \<Longrightarrow>
   number_of_edges G'
     \<le> number_of_edges G + length (filter (\<lambda>r. has_node G (rel_start r) \<and> has_node G (rel_end r)) rs)"
proof (induction rs arbitrary: G)
  case Nil
  then show ?case by simp
next
  case (Cons r rs)
  show ?case
  proof (cases "has_node G (rel_start r) \<and> has_node G (rel_end r)")
    case False
    then show ?thesis using Cons.IH[of G] Cons.prems by auto
  next
    case True
    from True Cons.prems obtain name where Some: "rel_properties r ''type'' = Some name"
      by (cases "rel_properties r ''type''") auto
    let ?G = "add_edge G (rel_start r) (rel_end r) [''type'' \<mapsto> rel_type r, ''name'' \<mapsto> name]"
    have h: "has_node ?G = has_node G"
      using True by (simp add: has_node_add_edge_present)
    have "add_relationships ?G rs = Inr G'" using Cons.prems True Some by simp
    from Cons.IH[OF this] have
      "number_of_edges G' \<le> number_of_edges ?G
          + length (filter (\<lambda>r. has_node G (rel_start r) \<and> has_node G (rel_end r)) rs)"
      by (simp add: h)
    moreover have "number_of_edges ?G \<le> Suc (number_of_edges G)"
      using True by (simp add: edges_add_edge)
    ultimately show ?thesis using True by simp
  qed
qed

lemma add_relationships_KeyError:
  "r \<in> set rs \<Longrightarrow> has_node G (rel_start r) \<Longrightarrow> has_node G (rel_end r) \<Longrightarrow>
   rel_properties r ''type'' = None \<Longrightarrow> add_relationships G rs = Inl KeyError"
proof (induction rs arbitrary: G)
  case Nil
  then show ?case by simp
next
  case (Cons x rs)
  show ?case
  proof (cases "x = r")
    case True
    with Cons.prems show ?thesis by simp
  next
    case False
    with Cons.prems have "r \<in> set rs" by simp
    then show ?thesis using Cons.IH Cons.prems(2-4)
      by (auto simp: has_node_add_edge split: option.splits)
  qed
qed

text \<open>
  C8. A relationship whose start or end id is not the id of a declared node is skipped:
  \<^verbatim>\<open>create_graph\<close> returns (or raises) what it does on the description without those
  relationships, and the graph it returns has at most as many edges as there are
  relationships with both endpoints declared.
\<close>

theorem dangling_relationships_skipped:
  "create_graph (Some gd)
     = create_graph (Some (gd\<lparr>gd_relationships := filter (declared gd) (gd_relationships gd)\<rparr>))
   \<and> (\<forall>G. create_graph (Some gd) = Inr G \<longrightarrow>
          number_of_edges G \<le> length (filter (declared gd) (gd_relationships gd)))"
proof (cases "add_nodes empty_graph (gd_nodes gd)")
  case (Inl e)
  then show ?thesis by (simp add: create_graph_def)
next
  case (Inr G0)
  from add_nodes_result[OF Inr] have
    adj0: "number_of_edges G0 = 0" and
    nodes0: "\<And>m. has_node G0 m \<longleftrightarrow> m \<in> node_id ` set (gd_nodes gd)"
    by (simp_all add: has_node_def number_of_edges_def empty_graph_def)
  have d: "(\<lambda>r. has_node G0 (rel_start r) \<and> has_node G0 (rel_end r)) = declared gd"
    by (rule ext) (simp add: declared_def nodes0)
  have "add_relationships G0 (gd_relationships gd)
          = add_relationships G0 (filter (declared gd) (gd_relationships gd))"
    using add_relationships_filter[of G0 "gd_relationships gd"] by (simp add: d)
  moreover have "number_of_edges G \<le> length (filter (declared gd) (gd_relationships gd))"
    if "add_relationships G0 (gd_relationships gd) = Inr G" for G
    using add_relationships_edges[OF that] by (simp add: d adj0)
  ultimately show ?thesis by (simp add: create_graph_def Inr)
qed

theorem dangling_relationships_skipped_witness:
  "\<exists>G. create_graph (Some \<lparr>gd_nodes = [\<lparr>node_id = 1::nat, node_labels = ''Entity'', node_properties = [''name'' \<mapsto> ''rain'']\<rparr>,
                                   \<lparr>node_id = 2, node_labels = ''Entity'', node_properties = [''name'' \<mapsto> ''flood'']\<rparr>],
                       gd_relationships = [\<lparr>rel_start = 1, rel_end = 2, rel_type = ''RELATION'', rel_properties = [''type'' \<mapsto> ''has effect'']\<rparr>,
                                           \<lparr>rel_start = 1, rel_end = 3, rel_type = ''RELATION'', rel_properties = Map.empty\<rparr>]\<rparr>) = Inr G
      \<and> number_of_edges G = 1"
proof -
  let ?gd = "\<lparr>gd_nodes = [\<lparr>node_id = 1::nat, node_labels = ''Entity'', node_properties = [''name'' \<mapsto> ''rain'']\<rparr>,
                                   \<lparr>node_id = 2, node_labels = ''Entity'', node_properties = [''name'' \<mapsto> ''flood'']\<rparr>],
                       gd_relationships = [\<lparr>rel_start = 1, rel_end = 2, rel_type = ''RELATION'', rel_properties = [''type'' \<mapsto> ''has effect'']\<rparr>,
                                           \<lparr>rel_start = 1, rel_end = 3, rel_type = ''RELATION'', rel_properties = Map.empty\<rparr>]\<rparr>"
  have f: "filter (declared ?gd) (gd_relationships ?gd) = [\<lparr>rel_start = 1, rel_end = 2, rel_type = ''RELATION'', rel_properties = [''type'' \<mapsto> ''has effect'']\<rparr>]"
    by (simp add: declared_def)
  have "create_graph (Some (?gd\<lparr>gd_relationships := filter (declared ?gd) (gd_relationships ?gd)\<rparr>))
     = Inr \<lparr>node_attrs = [(1, [''name'' \<mapsto> ''rain'', ''labels'' \<mapsto> ''Entity'']), (2, [''name'' \<mapsto> ''flood'', ''labels'' \<mapsto> ''Entity''])],
            adj = [((1, 2), [''type'' \<mapsto> ''RELATION'', ''name'' \<mapsto> ''has effect''])]\<rparr>"
    unfolding f
    by (simp add: create_graph_def kw_clash_def add_node_def add_edge_def has_node_def has_edge_def
        same_edge_def empty_graph_def)
  with dangling_relationships_skipped [of ?gd] show ?thesis
    by (simp add: number_of_edges_def)
qed

text \<open>
  C10. When the nodes have been added and some relationship with both endpoints among them
  has a \<^verbatim>\<open>properties\<close> object without the key \<^verbatim>\<open>type\<close>, \<^verbatim>\<open>create_graph\<close> raises a
  \<^verbatim>\<open>KeyError\<close>.
\<close>

theorem missing_type_KeyError:
  "add_nodes empty_graph (gd_nodes gd) = Inr G \<Longrightarrow> rel \<in> set (gd_relationships gd) \<Longrightarrow>
   has_node G (rel_start rel) \<Longrightarrow> has_node G (rel_end rel) \<Longrightarrow>
   rel_properties rel ''type'' = None \<Longrightarrow> create_graph (Some gd) = Inl KeyError"
  by (simp add: create_graph_def add_relationships_KeyError)

theorem missing_type_KeyError_witness:
  "create_graph (Some \<lparr>gd_nodes = [\<lparr>node_id = 1::nat, node_labels = ''Entity'', node_properties = [''name'' \<mapsto> ''rain'']\<rparr>,
                                   \<lparr>node_id = 2, node_labels = ''Entity'', node_properties = [''name'' \<mapsto> ''flood'']\<rparr>],
                       gd_relationships = [\<lparr>rel_start = 1, rel_end = 2, rel_type = ''RELATION'', rel_properties = [''kind'' \<mapsto> ''has effect'']\<rparr>]\<rparr>)
    = Inl KeyError"
proof -
  let ?gd = "\<lparr>gd_nodes = [\<lparr>node_id = 1::nat, node_labels = ''Entity'', node_properties = [''name'' \<mapsto> ''rain'']\<rparr>,
                                   \<lparr>node_id = 2, node_labels = ''Entity'', node_properties = [''name'' \<mapsto> ''flood'']\<rparr>],
                       gd_relationships = [\<lparr>rel_start = 1, rel_end = 2, rel_type = ''RELATION'', rel_properties = [''kind'' \<mapsto> ''has effect'']\<rparr>]\<rparr>"
  let ?G = "\<lparr>node_attrs = [(1::nat, [''name'' \<mapsto> ''rain'', ''labels'' \<mapsto> ''Entity'']), (2, [''name'' \<mapsto> ''flood'', ''labels'' \<mapsto> ''Entity''])],
            adj = []\<rparr>"
  let ?r = "\<lparr>rel_start = 1::nat, rel_end = 2::nat, rel_type = ''RELATION'', rel_properties = [''kind'' \<mapsto> ''has effect'']\<rparr>"
  have a: "add_nodes empty_graph (gd_nodes ?gd) = Inr ?G"
    by (simp add: kw_clash_def add_node_def has_node_def empty_graph_def)
  have b: "?r \<in> set (gd_relationships ?gd)" by simp
  have c: "has_node ?G (rel_start ?r)" "has_node ?G (rel_end ?r)" by (simp_all add: has_node_def)
  have d: "rel_properties ?r ''type'' = None" by simp
  show ?thesis by (rule missing_type_KeyError [OF a b c d])
qed

end
